theory Spec2Isabelle
  imports Main "HOL-Library.Word"
begin

unbundle bit_operations_syntax

section \<open>The bininps sketch: binary inputs and pulse counters\<close>

text \<open>
  The sketch runs on an 8-bit AVR: \<open>byte\<close> and \<open>uint8_t\<close> are 8 bits wide, \<open>int\<close> is
  16 bits wide and \<open>unsigned long\<close> is 32 bits wide.
\<close>

type_synonym byte = "8 word"
type_synonym int16 = "16 word"
type_synonym ulong = "32 word"

subsection \<open>Hardware inputs\<close>

text \<open>
  The three input port registers of the ATmega that the sketch reads. One value of \<open>pins\<close>
  is what the ports show during one pass of \<open>updateValues\<close>.
\<close>

datatype port = PINB | PINC | PIND

record pins =
  pinb :: byte
  pinc :: byte
  pind :: byte

fun readPort :: "pins \<Rightarrow> port \<Rightarrow> byte" where
  "readPort p PINB = pinb p"
| "readPort p PINC = pinc p"
| "readPort p PIND = pind p"

text \<open>
  Modelled from the spec: the macros \<open>bitRead\<close> and \<open>HIGH\<close> come from the Arduino core,
  which is not part of the source. The spec has a level read that yields a value in
  \<open>{0,1}\<close> and HIGH as the active polarity; the definitions below are the Arduino core's
  \<open>(((value) >> (bit)) & 0x01)\<close>, computed on \<open>int\<close> after integer promotion, and \<open>0x1\<close>.
\<close>

definition bitRead :: "byte \<Rightarrow> nat \<Rightarrow> int16" where
  "bitRead v b = drop_bit b (ucast v :: int16) AND 1"

definition HIGH :: int16 where
  "HIGH = 1"

subsection \<open>Global data of the sketch\<close>

definition binaryPin :: "nat list" where
  "binaryPin = [0, 1, 0, 1, 2, 3, 4, 5]"

definition binaryPort :: "port list" where
  "binaryPort = [PINB, PINB, PINC, PINC, PINC, PINC, PINC, PINC]"

definition counterPin :: "nat list" where
  "counterPin = [3, 5, 6, 7]"

definition counterPort :: "port list" where
  "counterPort = [PIND, PIND, PIND, PIND]"

record devstate =
  pcIRQ :: bool
  stateLowByte :: byte
  stateHighByte :: byte
  lastStateBinary :: "int16 list"
  counter :: "ulong list"
  lastStateCount :: "int16 list"
  dtBinInputs :: "byte list"
  dtCounters :: "byte list"

text \<open>The initial values of the globals; the register buffers are zero-initialised.\<close>

definition init_state :: devstate where
  "init_state =
     \<lparr> pcIRQ = False,
       stateLowByte = 0,
       stateHighByte = 0,
       lastStateBinary = [- 1, - 1, - 1, - 1, - 1, - 1, - 1, - 1],
       counter = [0, 0, 0, 0],
       lastStateCount = [- 1, - 1, - 1, - 1],
       dtBinInputs = [0, 0],
       dtCounters = replicate 16 0 \<rparr>"

text \<open>The arrays of the sketch have a fixed size; a list model carries it as an invariant.\<close>

definition wellformed :: "devstate \<Rightarrow> bool" where
  "wellformed s \<longleftrightarrow>
     length (lastStateBinary s) = 8 \<and> length (counter s) = 4 \<and>
     length (lastStateCount s) = 4 \<and> length (dtBinInputs s) = 2 \<and>
     length (dtCounters s) = 16"

subsection \<open>updateValues\<close>

text \<open>
  One iteration of the first \<open>for\<close> loop, for the binary-only input \<open>i\<close>. The pair holds
  the local \<open>res\<close> and the globals. \<open>stateLowByte |= state << i\<close> is computed on \<open>int\<close> and
  truncated to a byte.
\<close>

definition binaryBody :: "pins \<Rightarrow> nat \<Rightarrow> byte \<times> devstate \<Rightarrow> byte \<times> devstate" where
  "binaryBody p i rs =
     (case rs of (res, s) \<Rightarrow>
        let state = bitRead (readPort p (binaryPort ! i)) (binaryPin ! i);
            s1 = s\<lparr>stateLowByte :=
                     ucast ((ucast (stateLowByte s) :: int16) OR push_bit i state)\<rparr>
        in if lastStateBinary s1 ! i \<noteq> state
           then (1, s1\<lparr>lastStateBinary := (lastStateBinary s1)[i := state]\<rparr>)
           else (res, s1))"

text \<open>One iteration of the second \<open>for\<close> loop, for the counter input \<open>i\<close>.\<close>

definition counterBody :: "pins \<Rightarrow> nat \<Rightarrow> byte \<times> devstate \<Rightarrow> byte \<times> devstate" where
  "counterBody p i rs =
     (case rs of (res, s) \<Rightarrow>
        let state = bitRead (readPort p (counterPort ! i)) (counterPin ! i);
            s1 = s\<lparr>stateHighByte :=
                     ucast ((ucast (stateHighByte s) :: int16) OR push_bit i state)\<rparr>
        in if lastStateCount s1 ! i \<noteq> state
           then
             let res1 = (if res = 0 then 1 else res);
                 s2 = s1\<lparr>lastStateCount := (lastStateCount s1)[i := state]\<rparr>
             in if state = HIGH
                then (2, s2\<lparr>counter := (counter s2)[i := counter s2 ! i + 1]\<rparr>)
                else (res1, s2)
           else (res, s1))"

text \<open>
  The two loops run over \<open>i = 0 ..< sizeof(binaryPin)\<close> and \<open>i = 0 ..< sizeof(counterPin)\<close>;
  both arrays have one-byte elements, so the bounds are 8 and 4.
\<close>

definition binaryLoop :: "pins \<Rightarrow> nat \<Rightarrow> byte \<times> devstate \<Rightarrow> byte \<times> devstate" where
  "binaryLoop p n rs = fold (binaryBody p) [0..<n] rs"

definition counterLoop :: "pins \<Rightarrow> nat \<Rightarrow> byte \<times> devstate \<Rightarrow> byte \<times> devstate" where
  "counterLoop p n rs = fold (counterBody p) [0..<n] rs"

definition updateValues :: "pins \<Rightarrow> devstate \<Rightarrow> byte \<times> devstate" where
  "updateValues p s =
     (case binaryLoop p (length binaryPin) (0, s\<lparr>stateLowByte := 0\<rparr>) of
        (res1, s1) \<Rightarrow> counterLoop p (length counterPin) (res1, s1\<lparr>stateHighByte := 0\<rparr>))"

subsection \<open>Register updaters\<close>

definition updtBinInputs :: "devstate \<Rightarrow> devstate" where
  "updtBinInputs s =
     (let s1 = s\<lparr>dtBinInputs := (dtBinInputs s)[0 := stateHighByte s]\<rparr>
      in s1\<lparr>dtBinInputs := (dtBinInputs s1)[1 := stateLowByte s1]\<rparr>)"

definition updtCountersInner :: "nat \<Rightarrow> nat \<Rightarrow> devstate \<Rightarrow> devstate" where
  "updtCountersInner i j s =
     s\<lparr>dtCounters := (dtCounters s)[i * 4 + j :=
          ucast (drop_bit (8 * (3 - j)) (counter s ! (3 - i)) AND 0xFF)]\<rparr>"

definition updtCountersOuter :: "nat \<Rightarrow> devstate \<Rightarrow> devstate" where
  "updtCountersOuter i s = fold (updtCountersInner i) [0..<4] s"

definition updtCounters :: "devstate \<Rightarrow> devstate" where
  "updtCounters s = fold updtCountersOuter [0..<4] s"

subsection \<open>Publishing\<close>

text \<open>What the device transmits: one status packet per call of \<open>getData\<close>.\<close>

datatype tx =
  TxProductCode
| TxTxInterval
| TxVoltSupply
| TxBinInputs "byte list"
| TxCounters "byte list"

text \<open>
  Modelled from the spec: \<open>REGISTER::getData\<close> belongs to the panStamp library, which is
  not part of the source. The spec has the publish calls as fire-and-forget reports of
  the current binary states and counters. Here \<open>getData\<close> runs the updater that the
  source passes to the register's constructor and then reports the register's buffer.
\<close>

definition getData_BININPUTS :: "devstate \<Rightarrow> devstate \<times> tx" where
  "getData_BININPUTS s = (let s1 = updtBinInputs s in (s1, TxBinInputs (dtBinInputs s1)))"

definition getData_COUNTERS :: "devstate \<Rightarrow> devstate \<times> tx" where
  "getData_COUNTERS s = (let s1 = updtCounters s in (s1, TxCounters (dtCounters s1)))"

subsection \<open>setup and loop\<close>

text \<open>
  The sketch's \<open>setup\<close> function (named \<open>setup_sketch\<close> here, as \<open>setup\<close> is an Isabelle
  keyword) reports the product code, the transmission interval and the supply voltage,
  calls \<open>updateValues\<close> and discards its result, then reports the binary inputs and the
  counters. The pin change interrupts are enabled only at its end.
\<close>

definition setup_sketch :: "pins \<Rightarrow> devstate \<times> tx list" where
  "setup_sketch p =
     (case updateValues p init_state of
        (res, s1) \<Rightarrow>
          (case getData_BININPUTS s1 of
             (s2, t1) \<Rightarrow>
               (case getData_COUNTERS s2 of
                  (s3, t2) \<Rightarrow> (s3, [TxProductCode, TxTxInterval, TxVoltSupply, t1, t2]))))"

text \<open>
  One pass of \<open>loop\<close>. \<open>irq\<close> tells whether a pin change interrupt handler ran while the
  device slept in \<open>goToSleep\<close> (the handlers set \<open>pcIRQ\<close>); \<open>p\<close> is what the ports show
  after the wake. The \<open>switch\<close> falls through from \<open>case 2\<close> into \<open>case 1\<close>.
\<close>

definition loop :: "bool \<Rightarrow> pins \<Rightarrow> devstate \<Rightarrow> devstate \<times> tx list" where
  "loop irq p s0 =
     (let s = s0\<lparr>pcIRQ := pcIRQ s0 \<or> irq\<rparr>
      in if pcIRQ s
         then
           (case updateValues p s of
              (res, s1) \<Rightarrow>
                (case (if res = 2
                       then (case getData_COUNTERS s1 of (sa, t1) \<Rightarrow>
                               (case getData_BININPUTS sa of (sb, t2) \<Rightarrow> (sb, [t1, t2])))
                       else if res = 1
                       then (case getData_BININPUTS s1 of (sb, t2) \<Rightarrow> (sb, [t2]))
                       else (s1, []))
                 of (s2, out) \<Rightarrow> (s2\<lparr>pcIRQ := False\<rparr>, out)))
         else
           (case getData_COUNTERS s of (sa, t1) \<Rightarrow>
              (case getData_BININPUTS sa of (sb, t2) \<Rightarrow> (sb, [t1, t2]))))"

text \<open>The device after \<open>setup\<close> and a sequence of wakes.\<close>

fun run :: "(bool \<times> pins) list \<Rightarrow> devstate \<Rightarrow> devstate" where
  "run [] s = s"
| "run ((irq, p) # evs) s = run evs (fst (loop irq p s))"

subsection \<open>Observations used in the statements\<close>

text \<open>The level that \<open>updateValues\<close> samples for binary-only input \<open>i\<close> and counter input \<open>i\<close>.\<close>

definition binLevel :: "pins \<Rightarrow> nat \<Rightarrow> int16" where
  "binLevel p i = bitRead (readPort p (binaryPort ! i)) (binaryPin ! i)"

definition cntLevel :: "pins \<Rightarrow> nat \<Rightarrow> int16" where
  "cntLevel p i = bitRead (readPort p (counterPort ! i)) (counterPin ! i)"

text \<open>The value of counter \<open>k\<close> after each of a sequence of calls of \<open>updateValues\<close>.\<close>

fun counts :: "nat \<Rightarrow> pins list \<Rightarrow> devstate \<Rightarrow> ulong list" where
  "counts k [] s = []"
| "counts k (p # ps) s =
     (let s' = snd (updateValues p s) in counter s' ! k # counts k ps s')"

text \<open>
  The part of the globals that \<open>updateValues\<close> maintains for the lines: stored levels,
  counters and packed levels.
\<close>

definition lineState ::
  "devstate \<Rightarrow> int16 list \<times> int16 list \<times> ulong list \<times> byte \<times> byte" where
  "lineState s =
     (lastStateBinary s, lastStateCount s, counter s, stateHighByte s, stateLowByte s)"

text \<open>
  \<open>updateValues\<close> stopped after \<open>n\<close> iterations of its second loop: the first loop has run
  completely, the second one for the counter inputs below \<open>n\<close>.
\<close>

definition updateValuesUpTo :: "pins \<Rightarrow> nat \<Rightarrow> devstate \<Rightarrow> byte \<times> devstate" where
  "updateValuesUpTo p n s =
     (case binaryLoop p (length binaryPin) (0, s\<lparr>stateLowByte := 0\<rparr>) of
        (res1, s1) \<Rightarrow> counterLoop p n (res1, s1\<lparr>stateHighByte := 0\<rparr>))"

subsection \<open>Concrete inputs\<close>

text \<open>
  All lines low; all lines high; only counter input 0 (port D, bit 3) high; counter input
  0 and binary-only input 0 (port B, bit 0) high; only binary-only input 0 high.
\<close>

definition pL :: pins where
  "pL = \<lparr>pinb = 0, pinc = 0, pind = 0\<rparr>"

definition pH :: pins where
  "pH = \<lparr>pinb = 0xFF, pinc = 0xFF, pind = 0xFF\<rparr>"

definition pC0 :: pins where
  "pC0 = \<lparr>pinb = 0, pinc = 0, pind = 0x08\<rparr>"

definition pB0C0 :: pins where
  "pB0C0 = \<lparr>pinb = 1, pinc = 0, pind = 0x08\<rparr>"

definition pB0 :: pins where
  "pB0 = \<lparr>pinb = 1, pinc = 0, pind = 0\<rparr>"

text \<open>The globals after one call of \<open>updateValues\<close> with all lines low.\<close>

definition sIdle :: devstate where
  "sIdle = snd (updateValues pL init_state)"

text \<open>The same with counter 0 at its largest value, and with four distinct counter values.\<close>

definition sMax :: devstate where
  "sMax = sIdle\<lparr>counter := [0xFFFFFFFF, 0, 0, 0]\<rparr>"

definition sCount :: devstate where
  "sCount = sIdle\<lparr>counter := [0x01020304, 0x11121314, 0x21222324, 0x31323334]\<rparr>"

section \<open>Properties of the loops of updateValues\<close>

lemma bitRead_cases: "bitRead v b = 0 \<or> bitRead v b = 1"
  unfolding bitRead_def by (simp add: and_one_eq mod_2_eq_odd)

lemma pack_bit:
  "(ucast ((ucast (w :: byte) :: int16) OR push_bit i x) :: byte) = w OR ucast (push_bit i x)"
  by (rule bit_word_eqI) (auto simp: bit_simps)

lemma binaryLoop_0: "binaryLoop p 0 rs = rs"
  by (simp add: binaryLoop_def)

lemma binaryLoop_Suc: "binaryLoop p (Suc n) rs = binaryBody p n (binaryLoop p n rs)"
  by (simp add: binaryLoop_def)

lemma counterLoop_0: "counterLoop p 0 rs = rs"
  by (simp add: counterLoop_def)

lemma counterLoop_Suc: "counterLoop p (Suc n) rs = counterBody p n (counterLoop p n rs)"
  by (simp add: counterLoop_def)

lemma list_update_same: "xs ! i = v \<Longrightarrow> xs[i := v] = xs"
  by auto

lemma binaryBody_eq:
  "binaryBody p i rs =
     (if lastStateBinary (snd rs) ! i \<noteq> binLevel p i then 1 else fst rs,
      (snd rs)\<lparr>stateLowByte := stateLowByte (snd rs) OR ucast (push_bit i (binLevel p i)),
        lastStateBinary := (lastStateBinary (snd rs))[i := binLevel p i]\<rparr>)"
  by (cases rs) (simp add: binaryBody_def binLevel_def Let_def pack_bit list_update_same)

lemma counterBody_eq:
  "counterBody p i rs =
     (if lastStateCount (snd rs) ! i \<noteq> cntLevel p i
      then (if cntLevel p i = HIGH then 2 else if fst rs = 0 then 1 else fst rs) else fst rs,
      (snd rs)\<lparr>stateHighByte := stateHighByte (snd rs) OR ucast (push_bit i (cntLevel p i)),
        lastStateCount := (lastStateCount (snd rs))[i := cntLevel p i],
        counter := (if lastStateCount (snd rs) ! i \<noteq> cntLevel p i \<and> cntLevel p i = HIGH
                    then (counter (snd rs))[i := counter (snd rs) ! i + 1]
                    else counter (snd rs))\<rparr>)"
  by (cases rs) (simp add: counterBody_def cntLevel_def Let_def pack_bit list_update_same)

lemma binLevel_cases: "binLevel p i = 0 \<or> binLevel p i = 1"
  by (simp add: binLevel_def bitRead_cases)

lemma cntLevel_cases: "cntLevel p i = 0 \<or> cntLevel p i = 1"
  by (simp add: cntLevel_def bitRead_cases)

lemma level_bit:
  "x = 0 \<or> x = 1 \<Longrightarrow>
   bit (ucast (push_bit i (x::int16)) :: byte) b \<longleftrightarrow> b = i \<and> x = 1 \<and> b < 8"
  by (auto simp: bit_simps)

lemma nth_list_update_if:
  "xs[i := v] ! k = (if k = i \<and> i < length xs then v else xs ! k)"
  by (cases "i < length xs") (auto simp: nth_list_update list_update_beyond)

lemma binaryLoop_frame:
  "counter (snd (binaryLoop p n rs)) = counter (snd rs)"
  "lastStateCount (snd (binaryLoop p n rs)) = lastStateCount (snd rs)"
  "stateHighByte (snd (binaryLoop p n rs)) = stateHighByte (snd rs)"
  "pcIRQ (snd (binaryLoop p n rs)) = pcIRQ (snd rs)"
  "dtBinInputs (snd (binaryLoop p n rs)) = dtBinInputs (snd rs)"
  "dtCounters (snd (binaryLoop p n rs)) = dtCounters (snd rs)"
  by (induction n; simp add: binaryLoop_0 binaryLoop_Suc binaryBody_eq)+

lemma binaryLoop_length:
  "length (lastStateBinary (snd (binaryLoop p n rs))) = length (lastStateBinary (snd rs))"
  by (induction n) (simp_all add: binaryLoop_0 binaryLoop_Suc binaryBody_eq)

lemma binaryLoop_last:
  "lastStateBinary (snd (binaryLoop p n rs)) ! k =
     (if k < n \<and> k < length (lastStateBinary (snd rs)) then binLevel p k
      else lastStateBinary (snd rs) ! k)"
  by (induction n)
     (auto simp: binaryLoop_0 binaryLoop_Suc binaryBody_eq nth_list_update_if binaryLoop_length
           less_Suc_eq)

lemma binaryLoop_low:
  "bit (stateLowByte (snd (binaryLoop p n rs))) b \<longleftrightarrow>
     bit (stateLowByte (snd rs)) b \<or> (b < n \<and> b < 8 \<and> binLevel p b = 1)"
  by (induction n)
     (auto simp: binaryLoop_0 binaryLoop_Suc binaryBody_eq bit_or_iff
           level_bit [OF binLevel_cases] less_Suc_eq)

lemma binaryLoop_res:
  "fst (binaryLoop p n rs) =
     (if \<exists>k<n. lastStateBinary (snd rs) ! k \<noteq> binLevel p k then 1 else fst rs)"
  by (induction n)
     (auto simp: binaryLoop_0 binaryLoop_Suc binaryBody_eq binaryLoop_last less_Suc_eq)

lemma counterLoop_frame:
  "lastStateBinary (snd (counterLoop p n rs)) = lastStateBinary (snd rs)"
  "stateLowByte (snd (counterLoop p n rs)) = stateLowByte (snd rs)"
  "pcIRQ (snd (counterLoop p n rs)) = pcIRQ (snd rs)"
  "dtBinInputs (snd (counterLoop p n rs)) = dtBinInputs (snd rs)"
  "dtCounters (snd (counterLoop p n rs)) = dtCounters (snd rs)"
  by (induction n; simp add: counterLoop_0 counterLoop_Suc counterBody_eq)+

lemma counterLoop_length:
  "length (lastStateCount (snd (counterLoop p n rs))) = length (lastStateCount (snd rs))"
  "length (counter (snd (counterLoop p n rs))) = length (counter (snd rs))"
  by (induction n; simp add: counterLoop_0 counterLoop_Suc counterBody_eq)+

lemma counterLoop_last:
  "lastStateCount (snd (counterLoop p n rs)) ! k =
     (if k < n \<and> k < length (lastStateCount (snd rs)) then cntLevel p k
      else lastStateCount (snd rs) ! k)"
  by (induction n)
     (auto simp: counterLoop_0 counterLoop_Suc counterBody_eq nth_list_update_if
           counterLoop_length less_Suc_eq)

lemma counterLoop_high:
  "bit (stateHighByte (snd (counterLoop p n rs))) b \<longleftrightarrow>
     bit (stateHighByte (snd rs)) b \<or> (b < n \<and> b < 8 \<and> cntLevel p b = 1)"
  by (induction n)
     (auto simp: counterLoop_0 counterLoop_Suc counterBody_eq bit_or_iff
           level_bit [OF cntLevel_cases] less_Suc_eq)

lemma counterLoop_counter:
  "counter (snd (counterLoop p n rs)) ! k =
     (if k < n \<and> k < length (counter (snd rs)) \<and>
         lastStateCount (snd rs) ! k \<noteq> cntLevel p k \<and> cntLevel p k = HIGH
      then counter (snd rs) ! k + 1 else counter (snd rs) ! k)"
  by (induction n)
     (auto simp: counterLoop_0 counterLoop_Suc counterBody_eq nth_list_update_if
           counterLoop_length counterLoop_last less_Suc_eq)

lemma counterLoop_res:
  "fst (counterLoop p n rs) =
     (if \<exists>k<n. lastStateCount (snd rs) ! k \<noteq> cntLevel p k \<and> cntLevel p k = HIGH then 2
      else if \<exists>k<n. lastStateCount (snd rs) ! k \<noteq> cntLevel p k
      then (if fst rs = 0 then 1 else fst rs)
      else fst rs)"
  by (induction n)
     (auto simp: counterLoop_0 counterLoop_Suc counterBody_eq counterLoop_last less_Suc_eq)

lemma length_pins: "length binaryPin = 8" "length counterPin = 4"
  by (simp_all add: binaryPin_def counterPin_def)

lemma updateValues_unfold:
  "updateValues p s =
     counterLoop p 4
       (fst (binaryLoop p 8 (0, s\<lparr>stateLowByte := 0\<rparr>)),
        (snd (binaryLoop p 8 (0, s\<lparr>stateLowByte := 0\<rparr>)))\<lparr>stateHighByte := 0\<rparr>)"
  unfolding updateValues_def length_pins by (simp add: case_prod_beta)

lemma updateValues_frame:
  "pcIRQ (snd (updateValues p s)) = pcIRQ s"
  "dtBinInputs (snd (updateValues p s)) = dtBinInputs s"
  "dtCounters (snd (updateValues p s)) = dtCounters s"
  by (simp_all add: updateValues_unfold counterLoop_frame binaryLoop_frame)

lemma updateValues_length:
  "length (lastStateBinary (snd (updateValues p s))) = length (lastStateBinary s)"
  "length (lastStateCount (snd (updateValues p s))) = length (lastStateCount s)"
  "length (counter (snd (updateValues p s))) = length (counter s)"
  by (simp_all add: updateValues_unfold counterLoop_frame counterLoop_length binaryLoop_frame
        binaryLoop_length)

lemma updateValues_wf: "wellformed s \<Longrightarrow> wellformed (snd (updateValues p s))"
  by (simp add: wellformed_def updateValues_length updateValues_frame)

lemma updateValues_lastStateBinary:
  "lastStateBinary (snd (updateValues p s)) ! k =
     (if k < 8 \<and> k < length (lastStateBinary s) then binLevel p k else lastStateBinary s ! k)"
  by (simp add: updateValues_unfold counterLoop_frame binaryLoop_last)

lemma updateValues_lastStateCount:
  "lastStateCount (snd (updateValues p s)) ! k =
     (if k < 4 \<and> k < length (lastStateCount s) then cntLevel p k else lastStateCount s ! k)"
  by (simp add: updateValues_unfold counterLoop_last binaryLoop_frame)

lemma updateValues_counter:
  "counter (snd (updateValues p s)) ! k =
     (if k < 4 \<and> k < length (counter s) \<and>
         lastStateCount s ! k \<noteq> cntLevel p k \<and> cntLevel p k = HIGH
      then counter s ! k + 1 else counter s ! k)"
  by (auto simp add: updateValues_unfold counterLoop_counter binaryLoop_frame)

lemma updateValues_stateLowByte:
  "bit (stateLowByte (snd (updateValues p s))) b \<longleftrightarrow> b < 8 \<and> binLevel p b = 1"
  by (simp add: updateValues_unfold counterLoop_frame binaryLoop_low)

lemma updateValues_stateHighByte:
  "bit (stateHighByte (snd (updateValues p s))) b \<longleftrightarrow> b < 4 \<and> cntLevel p b = 1"
  by (auto simp add: updateValues_unfold counterLoop_high)

lemma updateValues_res:
  "fst (updateValues p s) =
     (if \<exists>k<4. lastStateCount s ! k \<noteq> cntLevel p k \<and> cntLevel p k = HIGH then 2
      else if (\<exists>k<8. lastStateBinary s ! k \<noteq> binLevel p k) \<or>
              (\<exists>k<4. lastStateCount s ! k \<noteq> cntLevel p k)
      then 1 else 0)"
  by (auto simp add: updateValues_unfold counterLoop_res binaryLoop_res binaryLoop_frame)

lemma wf_init_state: "wellformed init_state"
  by (simp add: wellformed_def init_state_def)

lemma wf_sIdle: "wellformed sIdle"
  unfolding sIdle_def by (rule updateValues_wf) (rule wf_init_state)

lemma updateValues_range: "fst (updateValues p s) \<in> {0, 1, 2}"
  by (simp add: updateValues_res)

lemma binaryBody_pcIRQ:
  "binaryBody p i (r, s\<lparr>pcIRQ := b\<rparr>) =
     (fst (binaryBody p i (r, s)), (snd (binaryBody p i (r, s)))\<lparr>pcIRQ := b\<rparr>)"
  by (simp add: binaryBody_eq)

lemma counterBody_pcIRQ:
  "counterBody p i (r, s\<lparr>pcIRQ := b\<rparr>) =
     (fst (counterBody p i (r, s)), (snd (counterBody p i (r, s)))\<lparr>pcIRQ := b\<rparr>)"
  by (simp add: counterBody_eq)

lemma binaryLoop_pcIRQ:
  "binaryLoop p n (r, s\<lparr>pcIRQ := b\<rparr>) =
     (fst (binaryLoop p n (r, s)), (snd (binaryLoop p n (r, s)))\<lparr>pcIRQ := b\<rparr>)"
proof (induction n)
  case 0
  show ?case by (simp add: binaryLoop_0)
next
  case (Suc n)
  show ?case
    unfolding binaryLoop_Suc Suc
    using binaryBody_pcIRQ [where r = "fst (binaryLoop p n (r, s))" and s = "snd (binaryLoop p n (r, s))"]
    by simp
qed

lemma counterLoop_pcIRQ:
  "counterLoop p n (r, s\<lparr>pcIRQ := b\<rparr>) =
     (fst (counterLoop p n (r, s)), (snd (counterLoop p n (r, s)))\<lparr>pcIRQ := b\<rparr>)"
proof (induction n)
  case 0
  show ?case by (simp add: counterLoop_0)
next
  case (Suc n)
  show ?case
    unfolding counterLoop_Suc Suc
    using counterBody_pcIRQ [where r = "fst (counterLoop p n (r, s))" and s = "snd (counterLoop p n (r, s))"]
    by simp
qed

lemma updateValues_pcIRQ:
  "updateValues p (s\<lparr>pcIRQ := b\<rparr>) =
     (fst (updateValues p s), (snd (updateValues p s))\<lparr>pcIRQ := b\<rparr>)"
proof -
  have c: "\<And>x. x\<lparr>pcIRQ := b, stateHighByte := 0\<rparr> = x\<lparr>stateHighByte := 0, pcIRQ := b\<rparr>"
    by simp
  have "s\<lparr>pcIRQ := b, stateLowByte := 0\<rparr> = s\<lparr>stateLowByte := 0, pcIRQ := b\<rparr>"
    by simp
  then show ?thesis
    by (simp only: updateValues_unfold binaryLoop_pcIRQ fst_conv snd_conv c counterLoop_pcIRQ)
qed

section \<open>Properties of the register updaters, setup and loop\<close>

lemma updtBinInputs_frame:
  "pcIRQ (updtBinInputs s) = pcIRQ s"
  "stateLowByte (updtBinInputs s) = stateLowByte s"
  "stateHighByte (updtBinInputs s) = stateHighByte s"
  "lastStateBinary (updtBinInputs s) = lastStateBinary s"
  "counter (updtBinInputs s) = counter s"
  "lastStateCount (updtBinInputs s) = lastStateCount s"
  "dtCounters (updtBinInputs s) = dtCounters s"
  by (simp_all add: updtBinInputs_def Let_def)

lemma list2: "length xs = 2 \<Longrightarrow> xs[0 := a, Suc 0 := b] = [a, b]"
  by (cases xs; cases "tl xs") auto

lemma updtBinInputs_dt:
  "length (dtBinInputs s) = 2 \<Longrightarrow>
   dtBinInputs (updtBinInputs s) = [stateHighByte s, stateLowByte s]"
  by (simp add: updtBinInputs_def Let_def list2)

lemma byte_mask: "(ucast ((w :: ulong) AND 0xFF) :: byte) = ucast w"
proof -
  have m: "(0xFF :: ulong) = mask 8"
    by (simp add: mask_eq_exp_minus_1)
  show ?thesis
    unfolding m by (rule bit_word_eqI) (simp add: bit_simps)
qed

lemma updtCountersInner_frame:
  "pcIRQ (updtCountersInner i j s) = pcIRQ s"
  "stateLowByte (updtCountersInner i j s) = stateLowByte s"
  "stateHighByte (updtCountersInner i j s) = stateHighByte s"
  "lastStateBinary (updtCountersInner i j s) = lastStateBinary s"
  "counter (updtCountersInner i j s) = counter s"
  "lastStateCount (updtCountersInner i j s) = lastStateCount s"
  "dtBinInputs (updtCountersInner i j s) = dtBinInputs s"
  by (simp_all add: updtCountersInner_def)

lemma upt4: "[0..<4] = [0, 1, 2, 3]"
  by (simp add: upt_rec)

lemma updtCountersOuter_frame:
  "pcIRQ (updtCountersOuter i s) = pcIRQ s"
  "stateLowByte (updtCountersOuter i s) = stateLowByte s"
  "stateHighByte (updtCountersOuter i s) = stateHighByte s"
  "lastStateBinary (updtCountersOuter i s) = lastStateBinary s"
  "counter (updtCountersOuter i s) = counter s"
  "lastStateCount (updtCountersOuter i s) = lastStateCount s"
  "dtBinInputs (updtCountersOuter i s) = dtBinInputs s"
  by (simp_all add: updtCountersOuter_def upt4 updtCountersInner_frame)

lemma updtCounters_frame:
  "pcIRQ (updtCounters s) = pcIRQ s"
  "stateLowByte (updtCounters s) = stateLowByte s"
  "stateHighByte (updtCounters s) = stateHighByte s"
  "lastStateBinary (updtCounters s) = lastStateBinary s"
  "counter (updtCounters s) = counter s"
  "lastStateCount (updtCounters s) = lastStateCount s"
  "dtBinInputs (updtCounters s) = dtBinInputs s"
  by (simp_all add: updtCounters_def upt4 updtCountersOuter_frame)

lemma updtCountersOuter_dt:
  "dtCounters (updtCountersOuter i s) =
     (dtCounters s)
       [i * 4 := ucast (drop_bit 24 (counter s ! (3 - i))),
        i * 4 + 1 := ucast (drop_bit 16 (counter s ! (3 - i))),
        i * 4 + 2 := ucast (drop_bit 8 (counter s ! (3 - i))),
        i * 4 + 3 := ucast (counter s ! (3 - i))]"
  by (simp add: updtCountersOuter_def upt4 updtCountersInner_def byte_mask)

lemma updtCounters_nth:
  assumes "length (dtCounters s) = 16" and "k < 4" and "j < 4"
  shows "dtCounters (updtCounters s) ! ((3 - k) * 4 + j) =
           ucast (drop_bit (8 * (3 - j)) (counter s ! k))"
proof -
  from assms(2,3) have "k \<in> {0, 1, 2, 3}" and "j \<in> {0, 1, 2, 3}"
    by auto
  then show ?thesis
    using assms(1)
    by (auto simp: updtCounters_def upt4 updtCountersOuter_dt updtCountersOuter_frame)
qed

lemma updtCounters_length:
  "length (dtCounters (updtCounters s)) = length (dtCounters s)"
  by (simp add: updtCounters_def upt4 updtCountersOuter_dt updtCountersOuter_frame)

lemma updtBinInputs_eq:
  "length (dtBinInputs s) = 2 \<Longrightarrow>
   updtBinInputs s = s\<lparr>dtBinInputs := [stateHighByte s, stateLowByte s]\<rparr>"
  by (simp add: updtBinInputs_def Let_def list2)

lemma updtCounters_eq:
  "updtCounters s = s\<lparr>dtCounters := dtCounters (updtCounters s)\<rparr>"
  by (rule devstate.equality) (simp_all add: updtCounters_frame)

lemma updtCounters_dt_cong:
  "counter s = counter s' \<Longrightarrow> dtCounters s = dtCounters s' \<Longrightarrow>
   dtCounters (updtCounters s) = dtCounters (updtCounters s')"
  by (simp add: updtCounters_def upt4 updtCountersOuter_dt updtCountersOuter_frame)

lemma getData_BININPUTS_eq:
  "length (dtBinInputs s) = 2 \<Longrightarrow>
   getData_BININPUTS s =
     (s\<lparr>dtBinInputs := [stateHighByte s, stateLowByte s]\<rparr>,
      TxBinInputs [stateHighByte s, stateLowByte s])"
  by (simp add: getData_BININPUTS_def Let_def updtBinInputs_eq)

lemma getData_COUNTERS_eq:
  "getData_COUNTERS s =
     (s\<lparr>dtCounters := dtCounters (updtCounters s)\<rparr>, TxCounters (dtCounters (updtCounters s)))"
  using updtCounters_eq [of s] by (simp add: getData_COUNTERS_def Let_def)

lemma setup_sketch_eq:
  "setup_sketch p =
     (let s1 = snd (updateValues p init_state)
      in (s1\<lparr>dtBinInputs := [stateHighByte s1, stateLowByte s1],
              dtCounters := dtCounters (updtCounters s1)\<rparr>,
          [TxProductCode, TxTxInterval, TxVoltSupply,
           TxBinInputs [stateHighByte s1, stateLowByte s1],
           TxCounters (dtCounters (updtCounters s1))]))"
proof -
  have len: "length (dtBinInputs (snd (updateValues p init_state))) = 2"
    by (simp add: updateValues_frame init_state_def)
  show ?thesis
    by (simp add: setup_sketch_def case_prod_beta getData_BININPUTS_eq [OF len]
          getData_COUNTERS_eq Let_def
          updtCounters_dt_cong [of "_\<lparr>dtBinInputs := _\<rparr>" "snd (updateValues p init_state)"])
qed

lemma loop_irq:
  assumes "wellformed s" and "pcIRQ s \<or> irq"
  shows "loop irq p s =
     (let r = updateValues p s; s1 = snd r
      in if fst r = 0 then (s1\<lparr>pcIRQ := False\<rparr>, [])
         else if fst r = 1
         then (s1\<lparr>pcIRQ := False, dtBinInputs := [stateHighByte s1, stateLowByte s1]\<rparr>,
               [TxBinInputs [stateHighByte s1, stateLowByte s1]])
         else (s1\<lparr>pcIRQ := False, dtBinInputs := [stateHighByte s1, stateLowByte s1],
                  dtCounters := dtCounters (updtCounters s1)\<rparr>,
               [TxCounters (dtCounters (updtCounters s1)),
                TxBinInputs [stateHighByte s1, stateLowByte s1]]))"
proof -
  let ?r = "updateValues p s"
  have len: "length (dtBinInputs (snd ?r)) = 2"
    using assms(1) by (simp add: updateValues_frame wellformed_def)
  have s: "s\<lparr>pcIRQ := pcIRQ s \<or> irq\<rparr> = s\<lparr>pcIRQ := True\<rparr>"
    using assms(2) by simp
  have d: "dtCounters (updtCounters ((snd ?r)\<lparr>pcIRQ := True\<rparr>)) = dtCounters (updtCounters (snd ?r))"
    by (rule updtCounters_dt_cong) simp_all
  from updateValues_range [of p s]
  consider "fst ?r = 0" | "fst ?r = 1" | "fst ?r = 2"
    by auto
  then show ?thesis
  proof cases
    case 1
    then show ?thesis
      by (simp add: loop_def Let_def s case_prod_beta updateValues_pcIRQ)
  next
    case 2
    then show ?thesis
      using len
      by (simp add: loop_def Let_def s case_prod_beta updateValues_pcIRQ getData_BININPUTS_eq)
  next
    case 3
    then show ?thesis
      using len
      by (simp add: loop_def Let_def s case_prod_beta updateValues_pcIRQ getData_BININPUTS_eq
            getData_COUNTERS_eq d)
  qed
qed

lemma loop_timer:
  assumes "wellformed s" and "\<not> (pcIRQ s \<or> irq)"
  shows "loop irq p s =
     (s\<lparr>dtCounters := dtCounters (updtCounters s),
        dtBinInputs := [stateHighByte s, stateLowByte s]\<rparr>,
      [TxCounters (dtCounters (updtCounters s)),
       TxBinInputs [stateHighByte s, stateLowByte s]])"
proof -
  have len: "length (dtBinInputs s) = 2"
    using assms(1) by (simp add: wellformed_def)
  from assms(2) have s: "s\<lparr>pcIRQ := False\<rparr> = s"
    by simp
  show ?thesis
    using assms(2) len
    by (simp add: loop_def Let_def case_prod_beta getData_BININPUTS_eq getData_COUNTERS_eq s)
qed

lemma loop_lineState:
  assumes "wellformed s"
  shows "lineState (fst (loop irq p s)) =
           (if pcIRQ s \<or> irq then lineState (snd (updateValues p s)) else lineState s)"
proof (cases "pcIRQ s \<or> irq")
  case True
  from updateValues_range [of p s]
  consider "fst (updateValues p s) = 0" | "fst (updateValues p s) = 1"
    | "fst (updateValues p s) = 2"
    by auto
  then show ?thesis
    using True by cases (simp_all add: loop_irq [OF assms True] Let_def lineState_def)
next
  case False
  show ?thesis
    unfolding loop_timer [OF assms False] using False by (simp add: lineState_def)
qed

lemma loop_wf:
  assumes "wellformed s"
  shows "wellformed (fst (loop irq p s))"
proof (cases "pcIRQ s \<or> irq")
  case True
  have w: "wellformed (snd (updateValues p s))"
    using assms by (rule updateValues_wf)
  from updateValues_range [of p s]
  consider "fst (updateValues p s) = 0" | "fst (updateValues p s) = 1"
    | "fst (updateValues p s) = 2"
    by auto
  then show ?thesis
    using w
    by cases
      (simp_all add: loop_irq [OF assms True] Let_def wellformed_def updtCounters_length)
next
  case False
  show ?thesis
    unfolding loop_timer [OF assms False]
    using assms by (simp add: wellformed_def updtCounters_length)
qed

lemma sIdle_fields:
  "pcIRQ sIdle = False" "stateLowByte sIdle = 0" "stateHighByte sIdle = 0"
  "lastStateBinary sIdle = [0, 0, 0, 0, 0, 0, 0, 0]"
  "counter sIdle = [0, 0, 0, 0]"
  "lastStateCount sIdle = [0, 0, 0, 0]"
  "dtBinInputs sIdle = [0, 0]"
  "dtCounters sIdle = [0, 0, 0, 0, 0, 0, 0, 0, 0, 0, 0, 0, 0, 0, 0, 0]"
  by code_simp+

lemma updtCounters_sIdle:
  "dtCounters (updtCounters sIdle) = [0, 0, 0, 0, 0, 0, 0, 0, 0, 0, 0, 0, 0, 0, 0, 0]"
  by code_simp

lemma setup_pL: "fst (setup_sketch pL) = sIdle"
proof -
  have "fst (setup_sketch pL) =
          sIdle\<lparr>dtBinInputs := [stateHighByte sIdle, stateLowByte sIdle],
                dtCounters := dtCounters (updtCounters sIdle)\<rparr>"
    by (simp add: setup_sketch_eq Let_def sIdle_def)
  also have "\<dots> = sIdle"
    by (rule devstate.equality) (simp_all add: sIdle_fields updtCounters_sIdle)
  finally show ?thesis .
qed

section \<open>The claims\<close>

subsection \<open>C1: the level sequence 0,0,1,1,0,1 gives two increments\<close>

lemma length6:
  assumes "map f ps = [a, b, c, d, e, g]"
  obtains p0 p1 p2 p3 p4 p5 where "ps = [p0, p1, p2, p3, p4, p5]"
  using assms by (auto simp: map_eq_Cons_conv)

text \<open>
  C1. For a counter line \<open>k\<close> whose stored level is 0, six successive calls of
  \<open>updateValues\<close> that sample the levels 0, 0, 1, 1, 0, 1 on that line leave the counter
  at \<open>c, c, c + 1, c + 1, c + 1, c + 2\<close>: it is incremented at the samples with index 2
  and 5 only, twice in all. A repeated level and the change from 1 to 0 do not increment.
\<close>

theorem pulse_sequence:
  assumes "wellformed s" and "k < 4" and "lastStateCount s ! k = 0"
    and "map (\<lambda>p. cntLevel p k) ps = [0, 0, 1, 1, 0, 1]"
  shows "counts k ps s =
           [counter s ! k, counter s ! k, counter s ! k + 1, counter s ! k + 1,
            counter s ! k + 1, counter s ! k + 2]"
proof -
  from assms(4) obtain p0 p1 p2 p3 p4 p5 where ps: "ps = [p0, p1, p2, p3, p4, p5]"
    by (rule length6)
  from assms(1,2) have len: "k < length (counter s)" "k < length (lastStateCount s)"
    by (simp_all add: wellformed_def)
  from assms(4) have lv: "cntLevel p0 k = 0" "cntLevel p1 k = 0" "cntLevel p2 k = 1"
    "cntLevel p3 k = 1" "cntLevel p4 k = 0" "cntLevel p5 k = 1"
    by (simp_all add: ps)
  show ?thesis
    using assms(2,3) len
    by (simp add: ps Let_def updateValues_counter updateValues_lastStateCount
          updateValues_length lv HIGH_def)
qed

theorem pulse_sequence_witness:
  "wellformed sIdle \<and> (0::nat) < 4 \<and> lastStateCount sIdle ! 0 = 0 \<and>
   map (\<lambda>p. cntLevel p 0) [pL, pL, pC0, pC0, pL, pC0] = [0, 0, 1, 1, 0, 1] \<and>
   counts 0 [pL, pL, pC0, pC0, pL, pC0] sIdle = [0, 0, 1, 1, 1, 2]"
proof -
  have l: "lastStateCount sIdle ! 0 = 0"
    by code_simp
  have m: "map (\<lambda>p. cntLevel p 0) [pL, pL, pC0, pC0, pL, pC0] = [0, 0, 1, 1, 0, 1]"
    by code_simp
  have c: "counter sIdle ! 0 = 0"
    by code_simp
  show ?thesis
    using pulse_sequence [OF wf_sIdle _ l m] wf_sIdle l m c by simp
qed

subsection \<open>C2: the return value of updateValues\<close>

text \<open>
  C2. \<open>updateValues\<close> returns 2 whenever it incremented some counter, also when a
  binary-only line changed in the same call; it returns 1 when no counter was incremented
  and the stored level of some line (binary-only or counter) changed; it returns 0 when
  nothing changed.
\<close>

theorem classification:
  assumes "wellformed s"
  shows "fst (updateValues p s) =
     (if \<exists>k<4. counter (snd (updateValues p s)) ! k \<noteq> counter s ! k then 2
      else if (\<exists>k<8. lastStateBinary (snd (updateValues p s)) ! k \<noteq> lastStateBinary s ! k) \<or>
              (\<exists>k<4. lastStateCount (snd (updateValues p s)) ! k \<noteq> lastStateCount s ! k)
      then 1 else 0)"
proof -
  have c: "\<And>k. k < 4 \<Longrightarrow> counter (snd (updateValues p s)) ! k \<noteq> counter s ! k
           \<longleftrightarrow> lastStateCount s ! k \<noteq> cntLevel p k \<and> cntLevel p k = HIGH"
    using assms by (auto simp add: updateValues_counter wellformed_def)
  have b: "\<And>k. k < 8 \<Longrightarrow> lastStateBinary (snd (updateValues p s)) ! k \<noteq> lastStateBinary s ! k
           \<longleftrightarrow> lastStateBinary s ! k \<noteq> binLevel p k"
    using assms by (auto simp add: updateValues_lastStateBinary wellformed_def)
  have l: "\<And>k. k < 4 \<Longrightarrow> lastStateCount (snd (updateValues p s)) ! k \<noteq> lastStateCount s ! k
           \<longleftrightarrow> lastStateCount s ! k \<noteq> cntLevel p k"
    using assms by (auto simp add: updateValues_lastStateCount wellformed_def)
  show ?thesis
    by (simp only: updateValues_res c b l cong: conj_cong)
qed

theorem classification_witness:
  "wellformed sIdle \<and> fst (updateValues pB0C0 sIdle) = 2 \<and>
   lastStateBinary (snd (updateValues pB0C0 sIdle)) ! 0 \<noteq> lastStateBinary sIdle ! 0"
proof -
  have c: "counter (snd (updateValues pB0C0 sIdle)) ! 0 \<noteq> counter sIdle ! 0"
    by code_simp
  then have "\<exists>k<4. counter (snd (updateValues pB0C0 sIdle)) ! k \<noteq> counter sIdle ! k"
    by (intro exI [of _ 0]) simp
  with classification [OF wf_sIdle, of pB0C0]
  have "fst (updateValues pB0C0 sIdle) = 2"
    by simp
  moreover have "lastStateBinary (snd (updateValues pB0C0 sIdle)) ! 0 \<noteq> lastStateBinary sIdle ! 0"
    by code_simp
  ultimately show ?thesis
    using wf_sIdle by simp
qed

subsection \<open>C3: what one pass of loop publishes\<close>

text \<open>
  C3. In a pass of \<open>loop\<close> with no interrupt flag (a timer wake), the counters are
  published and then the binary states, whatever the lines show. With the interrupt flag
  set, \<open>updateValues\<close> runs and its result decides: 0 publishes nothing, 1 publishes the
  binary states only, 2 publishes the counters and then the binary states; the result is
  always one of 0, 1 and 2.
\<close>

theorem loop_publish:
  assumes "wellformed s"
  shows "snd (loop irq p s) =
     (if pcIRQ s \<or> irq
      then
        (let r = updateValues p s; s1 = snd r
         in if fst r = 0 then []
            else if fst r = 1 then [TxBinInputs [stateHighByte s1, stateLowByte s1]]
            else [TxCounters (dtCounters (updtCounters s1)),
                  TxBinInputs [stateHighByte s1, stateLowByte s1]])
      else [TxCounters (dtCounters (updtCounters s)),
            TxBinInputs [stateHighByte s, stateLowByte s]]) \<and>
     fst (updateValues p s) \<in> {0, 1, 2}"
proof (cases "pcIRQ s \<or> irq")
  case True
  with assms show ?thesis
    by (simp add: loop_irq Let_def updateValues_range del: insert_iff)
next
  case False
  with assms show ?thesis
    by (simp add: loop_timer updateValues_range del: insert_iff)
qed

theorem loop_publish_witness:
  "wellformed sIdle \<and>
   snd (loop True pL sIdle) = [] \<and>
   snd (loop True pB0 sIdle) = [TxBinInputs [0, 1]] \<and>
   snd (loop True pB0C0 sIdle) =
     [TxCounters [0, 0, 0, 0, 0, 0, 0, 0, 0, 0, 0, 0, 0, 0, 0, 1], TxBinInputs [1, 1]] \<and>
   snd (loop False pB0C0 sIdle) =
     [TxCounters [0, 0, 0, 0, 0, 0, 0, 0, 0, 0, 0, 0, 0, 0, 0, 0], TxBinInputs [0, 0]]"
proof -
  have i: "pcIRQ sIdle = False"
    by code_simp
  have r: "fst (updateValues pL sIdle) = 0" "fst (updateValues pB0 sIdle) = 1"
    "fst (updateValues pB0C0 sIdle) = 2"
    by code_simp+
  have b: "stateHighByte (snd (updateValues pB0 sIdle)) = 0"
    "stateLowByte (snd (updateValues pB0 sIdle)) = 1"
    "stateHighByte (snd (updateValues pB0C0 sIdle)) = 1"
    "stateLowByte (snd (updateValues pB0C0 sIdle)) = 1"
    "stateHighByte sIdle = 0" "stateLowByte sIdle = 0"
    by code_simp+
  have c: "dtCounters (updtCounters (snd (updateValues pB0C0 sIdle))) =
             [0, 0, 0, 0, 0, 0, 0, 0, 0, 0, 0, 0, 0, 0, 0, 1]"
    "dtCounters (updtCounters sIdle) = [0, 0, 0, 0, 0, 0, 0, 0, 0, 0, 0, 0, 0, 0, 0, 0]"
    by code_simp+
  show ?thesis
    using loop_publish [OF wf_sIdle, of True pL] loop_publish [OF wf_sIdle, of True pB0]
      loop_publish [OF wf_sIdle, of True pB0C0] loop_publish [OF wf_sIdle, of False pB0C0]
      wf_sIdle
    by (simp add: i r b c Let_def)
qed

subsection \<open>C7: the report at startup\<close>

text \<open>
  C7. The sketch's \<open>setup\<close> performs one call of \<open>updateValues\<close> on the initial globals
  and then publishes the binary states once and the counters once, after the three common
  registers, whatever \<open>updateValues\<close> returned. The globals it leaves are those of that one
  call, with the two register buffers filled: every line has the level sampled at
  start-up stored, and a counter is 1 if its line was sampled HIGH and 0 otherwise. The
  reports carry what was sampled: the binary report packs the sampled levels of the
  counter lines in byte 0 and of the binary-only lines in byte 1, and the counter report
  holds these counters, counter \<open>k\<close> in the bytes from \<open>(3 - k) * 4\<close>, most significant
  byte first.
\<close>

theorem bootstrap_report:
  assumes "i < 8" and "k < 4" and "j < 4"
  shows "snd (setup_sketch p) =
           [TxProductCode, TxTxInterval, TxVoltSupply,
            TxBinInputs (dtBinInputs (fst (setup_sketch p))),
            TxCounters (dtCounters (fst (setup_sketch p)))] \<and>
         fst (setup_sketch p) =
           (snd (updateValues p init_state))
             \<lparr>dtBinInputs := dtBinInputs (fst (setup_sketch p)),
              dtCounters := dtCounters (fst (setup_sketch p))\<rparr> \<and>
         pcIRQ (fst (setup_sketch p)) = False \<and>
         lastStateBinary (fst (setup_sketch p)) ! i = binLevel p i \<and>
         lastStateCount (fst (setup_sketch p)) ! k = cntLevel p k \<and>
         counter (fst (setup_sketch p)) ! k = (if cntLevel p k = HIGH then 1 else 0) \<and>
         length (dtBinInputs (fst (setup_sketch p))) = 2 \<and>
         (\<forall>b. bit (dtBinInputs (fst (setup_sketch p)) ! 0) b \<longleftrightarrow> b < 4 \<and> cntLevel p b = HIGH) \<and>
         (\<forall>b. bit (dtBinInputs (fst (setup_sketch p)) ! 1) b \<longleftrightarrow> b < 8 \<and> binLevel p b = HIGH) \<and>
         length (dtCounters (fst (setup_sketch p))) = 16 \<and>
         dtCounters (fst (setup_sketch p)) ! ((3 - k) * 4 + j) =
           ucast (drop_bit (8 * (3 - j)) (if cntLevel p k = HIGH then 1 else 0 :: ulong))"
proof -
  let ?s1 = "snd (updateValues p init_state)"
  have f: "fst (setup_sketch p) =
             ?s1\<lparr>dtBinInputs := [stateHighByte ?s1, stateLowByte ?s1],
                  dtCounters := dtCounters (updtCounters ?s1)\<rparr>"
    and t: "snd (setup_sketch p) =
             [TxProductCode, TxTxInterval, TxVoltSupply,
              TxBinInputs [stateHighByte ?s1, stateLowByte ?s1],
              TxCounters (dtCounters (updtCounters ?s1))]"
    by (simp_all add: setup_sketch_eq Let_def)
  have l: "length (lastStateBinary init_state) = 8" "length (lastStateCount init_state) = 4"
    "length (counter init_state) = 4" "length (dtCounters init_state) = 16"
    by (simp_all add: init_state_def)
  from assms(2) have "k \<in> {0, 1, 2, 3}"
    by auto
  then have i0: "lastStateCount init_state ! k = - 1" "counter init_state ! k = 0"
    by (auto simp: init_state_def)
  have ne: "lastStateCount init_state ! k \<noteq> cntLevel p k"
    using cntLevel_cases [of p k] by (auto simp: i0)
  have c: "counter ?s1 ! k = (if cntLevel p k = HIGH then 1 else 0)"
    using assms(2) ne by (simp add: updateValues_counter l i0)
  have d: "length (dtCounters ?s1) = 16"
    by (simp add: updateValues_frame l)
  have 1: "snd (setup_sketch p) =
           [TxProductCode, TxTxInterval, TxVoltSupply,
            TxBinInputs (dtBinInputs (fst (setup_sketch p))),
            TxCounters (dtCounters (fst (setup_sketch p)))]"
    by (simp add: f t)
  have 2: "fst (setup_sketch p) =
           ?s1\<lparr>dtBinInputs := dtBinInputs (fst (setup_sketch p)),
               dtCounters := dtCounters (fst (setup_sketch p))\<rparr>"
    by (simp add: f)
  have 3: "pcIRQ (fst (setup_sketch p)) = False"
    by (simp add: f updateValues_frame init_state_def)
  have 4: "lastStateBinary (fst (setup_sketch p)) ! i = binLevel p i"
    using assms(1) by (simp add: f updateValues_lastStateBinary l)
  have 5: "lastStateCount (fst (setup_sketch p)) ! k = cntLevel p k"
    using assms(2) by (simp add: f updateValues_lastStateCount l)
  have 6: "counter (fst (setup_sketch p)) ! k = (if cntLevel p k = HIGH then 1 else 0)"
    using c by (simp add: f)
  have 7: "length (dtBinInputs (fst (setup_sketch p))) = 2"
    by (simp add: f)
  have 8: "\<forall>b. bit (dtBinInputs (fst (setup_sketch p)) ! 0) b \<longleftrightarrow> b < 4 \<and> cntLevel p b = HIGH"
    by (simp add: f updateValues_stateHighByte HIGH_def)
  have 9: "\<forall>b. bit (dtBinInputs (fst (setup_sketch p)) ! 1) b \<longleftrightarrow> b < 8 \<and> binLevel p b = HIGH"
    by (simp add: f updateValues_stateLowByte HIGH_def)
  have 10: "length (dtCounters (fst (setup_sketch p))) = 16"
    by (simp add: f updtCounters_length d)
  have "dtCounters (fst (setup_sketch p)) ! ((3 - k) * 4 + j) =
          ucast (drop_bit (8 * (3 - j)) (counter ?s1 ! k))"
    unfolding f using updtCounters_nth [OF d assms(2,3)] by simp
  then have 11: "dtCounters (fst (setup_sketch p)) ! ((3 - k) * 4 + j) =
           ucast (drop_bit (8 * (3 - j)) (if cntLevel p k = HIGH then 1 else 0 :: ulong))"
    by (simp only: c)
  from 1 2 3 4 5 6 7 8 9 10 11 show ?thesis
    by (intro conjI)
qed

theorem bootstrap_report_witness:
  "(7::nat) < 8 \<and> (0::nat) < 4 \<and> (3::nat) < 4 \<and>
   snd (setup_sketch pH) =
     [TxProductCode, TxTxInterval, TxVoltSupply, TxBinInputs [0x0F, 0xFF],
      TxCounters [0, 0, 0, 1, 0, 0, 0, 1, 0, 0, 0, 1, 0, 0, 0, 1]] \<and>
   lastStateBinary (fst (setup_sketch pH)) ! 7 = 1 \<and>
   lastStateCount (fst (setup_sketch pH)) ! 0 = 1 \<and>
   counter (fst (setup_sketch pH)) ! 0 = 1 \<and>
   dtCounters (fst (setup_sketch pH)) ! 15 = 1"
proof -
  let ?s1 = "snd (updateValues pH init_state)"
  have l: "binLevel pH 7 = 1" "cntLevel pH 0 = HIGH"
    by code_simp+
  have h: "stateHighByte ?s1 = 0x0F" "stateLowByte ?s1 = 0xFF"
    by code_simp+
  have n: "counter ?s1 = [1, 1, 1, 1]"
    by code_simp
  have "dtCounters (updtCounters ?s1) =
          dtCounters (updtCounters (init_state\<lparr>counter := [1, 1, 1, 1]\<rparr>))"
    by (rule updtCounters_dt_cong) (simp_all add: n updateValues_frame)
  also have "\<dots> = [0, 0, 0, 1, 0, 0, 0, 1, 0, 0, 0, 1, 0, 0, 0, 1]"
    by code_simp
  finally have c: "dtCounters (updtCounters ?s1) =
          [0, 0, 0, 1, 0, 0, 0, 1, 0, 0, 0, 1, 0, 0, 0, 1]" .
  have f: "dtBinInputs (fst (setup_sketch pH)) = [0x0F, 0xFF]"
    "dtCounters (fst (setup_sketch pH)) = [0, 0, 0, 1, 0, 0, 0, 1, 0, 0, 0, 1, 0, 0, 0, 1]"
    by (simp_all add: setup_sketch_eq Let_def h c)
  have q: "(7::nat) < 8" "(0::nat) < 4" "(3::nat) < 4"
    by simp_all
  note t = bootstrap_report [OF q, of pH]
  from t have "snd (setup_sketch pH) =
     [TxProductCode, TxTxInterval, TxVoltSupply,
      TxBinInputs (dtBinInputs (fst (setup_sketch pH))),
      TxCounters (dtCounters (fst (setup_sketch pH)))]"
    by blast
  moreover from t have "lastStateBinary (fst (setup_sketch pH)) ! 7 = binLevel pH 7"
    by blast
  moreover from t have "lastStateCount (fst (setup_sketch pH)) ! 0 = cntLevel pH 0"
    by blast
  moreover from t
  have "counter (fst (setup_sketch pH)) ! 0 = (if cntLevel pH 0 = HIGH then 1 else 0)"
    by blast
  ultimately show ?thesis
    using q by (simp add: f l HIGH_def)
qed

subsection \<open>C9: a line that is high at the first sample is counted\<close>

text \<open>
  C9. The stored level of every counter line starts at the sentinel \<open>-1\<close> and its counter
  at 0. If the first call of \<open>updateValues\<close> samples HIGH on counter line \<open>k\<close>, the counter
  of that line is 1 afterwards, and so it is after the sketch's \<open>setup\<close>.
\<close>

theorem first_high_is_counted:
  assumes "k < 4" and "cntLevel p k = HIGH"
  shows "lastStateCount init_state ! k = - 1 \<and> counter init_state ! k = 0 \<and>
         counter (snd (updateValues p init_state)) ! k = 1 \<and>
         counter (fst (setup_sketch p)) ! k = 1"
proof -
  from assms(1) have "k \<in> {0, 1, 2, 3}"
    by auto
  then have i: "lastStateCount init_state ! k = - 1" "counter init_state ! k = 0"
    by (auto simp: init_state_def)
  have l: "k < length (counter init_state)"
    using assms(1) by (simp add: init_state_def)
  have "counter (snd (updateValues p init_state)) ! k = 1"
    using assms l by (simp add: updateValues_counter i HIGH_def)
  then show ?thesis
    using i by (simp add: setup_sketch_eq Let_def)
qed

theorem first_high_is_counted_witness:
  "(0::nat) < 4 \<and> cntLevel pH 0 = HIGH \<and> counter (fst (setup_sketch pH)) ! 0 = 1"
proof -
  have h: "cntLevel pH 0 = HIGH"
    by code_simp
  show ?thesis
    using first_high_is_counted [of 0 pH] h by simp
qed

subsection \<open>C10: the layout of the published registers\<close>

text \<open>
  C10. After \<open>updtCounters\<close> the 16-byte counter register holds counter \<open>k\<close> in the four
  bytes from index \<open>(3 - k) * 4\<close>, the most significant byte first: byte \<open>j\<close> of the group
  is the counter shifted right by \<open>8 * (3 - j)\<close> bits. After \<open>updateValues\<close> and
  \<open>updtBinInputs\<close> the 2-byte binary register holds in byte 0 the levels of the counter
  lines (bit \<open>i\<close> for line \<open>i\<close>, the bits from 4 on being 0) and in byte 1 the levels of the
  binary-only lines (bit \<open>i\<close> for line \<open>i\<close>).
\<close>

theorem register_layout:
  assumes "wellformed s" and "k < 4" and "j < 4"
  shows "dtCounters (updtCounters s) ! ((3 - k) * 4 + j) =
           ucast (drop_bit (8 * (3 - j)) (counter s ! k)) \<and>
         length (dtCounters (updtCounters s)) = 16 \<and>
         length (dtBinInputs (updtBinInputs (snd (updateValues p s)))) = 2 \<and>
         (bit (dtBinInputs (updtBinInputs (snd (updateValues p s))) ! 0) i \<longleftrightarrow>
            i < 4 \<and> cntLevel p i = HIGH) \<and>
         (bit (dtBinInputs (updtBinInputs (snd (updateValues p s))) ! 1) i \<longleftrightarrow>
            i < 8 \<and> binLevel p i = HIGH)"
proof -
  have len: "length (dtBinInputs (snd (updateValues p s))) = 2"
    using assms(1) by (simp add: updateValues_frame wellformed_def)
  have d: "length (dtCounters s) = 16"
    using assms(1) by (simp add: wellformed_def)
  show ?thesis
    using assms(2,3)
    by (simp add: updtCounters_nth [OF d] updtCounters_length d updtBinInputs_dt [OF len]
          updateValues_stateHighByte updateValues_stateLowByte HIGH_def)
qed

theorem register_layout_witness:
  "wellformed sCount \<and> counter sCount ! 0 = 0x01020304 \<and>
   dtCounters (updtCounters sCount) ! 12 = 0x01 \<and>
   dtCounters (updtCounters sCount) ! 13 = 0x02 \<and>
   dtCounters (updtCounters sCount) ! 14 = 0x03 \<and>
   dtCounters (updtCounters sCount) ! 15 = 0x04 \<and>
   counter sCount ! 3 = 0x31323334 \<and>
   dtCounters (updtCounters sCount) ! 0 = 0x31 \<and>
   dtBinInputs (updtBinInputs (snd (updateValues pB0C0 sCount))) = [1, 1]"
proof -
  have w: "wellformed sCount"
    using wf_sIdle by (simp add: sCount_def wellformed_def)
  have c: "counter sCount ! 0 = 0x01020304" "counter sCount ! 3 = 0x31323334"
    by (simp_all add: sCount_def)
  have b: "dtBinInputs (updtBinInputs (snd (updateValues pB0C0 sCount))) = [1, 1]"
    by code_simp
  show ?thesis
    using register_layout [OF w, of 0 0] register_layout [OF w, of 0 1]
      register_layout [OF w, of 0 2] register_layout [OF w, of 0 3]
      register_layout [OF w, of 3 0] w c b
    by simp
qed

subsection \<open>C4: whether every wake samples the lines\<close>

text \<open>
  C4, as stated, fails. After the sketch's \<open>setup\<close> with all lines low, a timer wake with
  all lines high publishes the binary states 0, 0 and leaves the stored levels at 0: no
  sample was taken, although a call of \<open>updateValues\<close> on these ports would store the
  levels 1 and pack the bytes \<open>0x0F\<close> and \<open>0xFF\<close>.
\<close>

theorem timer_wake_not_sampled:
  "pcIRQ (fst (setup_sketch pL)) = False \<and>
   snd (loop False pH (fst (setup_sketch pL))) =
     [TxCounters [0, 0, 0, 0, 0, 0, 0, 0, 0, 0, 0, 0, 0, 0, 0, 0], TxBinInputs [0, 0]] \<and>
   lastStateCount (fst (loop False pH (fst (setup_sketch pL)))) = [0, 0, 0, 0] \<and>
   lastStateCount (snd (updateValues pH (fst (setup_sketch pL)))) = [1, 1, 1, 1] \<and>
   stateHighByte (snd (updateValues pH (fst (setup_sketch pL)))) = 0x0F \<and>
   stateLowByte (snd (updateValues pH (fst (setup_sketch pL)))) = 0xFF"
proof -
  have t: "\<not> (pcIRQ sIdle \<or> False)"
    by (simp add: sIdle_fields)
  have u: "lastStateCount (snd (updateValues pH sIdle)) = [1, 1, 1, 1]"
    "stateHighByte (snd (updateValues pH sIdle)) = 0x0F"
    "stateLowByte (snd (updateValues pH sIdle)) = 0xFF"
    by code_simp+
  show ?thesis
    unfolding setup_pL loop_timer [OF wf_sIdle t]
    by (simp add: sIdle_fields updtCounters_sIdle u)
qed

text \<open>
  C4, amended. On a wake with the interrupt flag set, \<open>updateValues\<close> runs before
  anything is published: the line state after the pass of \<open>loop\<close> is the one that
  \<open>updateValues\<close> leaves, everything published is taken from it, and its packed bytes hold
  the levels sampled in this pass. On a timer wake no sample is taken: the line state is
  left as it was and the counters and binary states published are the stored ones, from
  the most recent call of \<open>updateValues\<close>.
\<close>

theorem wake_sampling:
  assumes "wellformed s"
  shows "(pcIRQ s \<or> irq \<longrightarrow>
            lineState (fst (loop irq p s)) = lineState (snd (updateValues p s)) \<and>
            set (snd (loop irq p s)) \<subseteq>
              {TxCounters (dtCounters (updtCounters (snd (updateValues p s)))),
               TxBinInputs [stateHighByte (snd (updateValues p s)),
                            stateLowByte (snd (updateValues p s))]}) \<and>
         (bit (stateHighByte (snd (updateValues p s))) i \<longleftrightarrow> i < 4 \<and> cntLevel p i = HIGH) \<and>
         (bit (stateLowByte (snd (updateValues p s))) i \<longleftrightarrow> i < 8 \<and> binLevel p i = HIGH) \<and>
         (\<not> (pcIRQ s \<or> irq) \<longrightarrow>
            lineState (fst (loop irq p s)) = lineState s \<and>
            snd (loop irq p s) =
              [TxCounters (dtCounters (updtCounters s)),
               TxBinInputs [stateHighByte s, stateLowByte s]])"
proof -
  have a: "set (snd (loop irq p s)) \<subseteq>
              {TxCounters (dtCounters (updtCounters (snd (updateValues p s)))),
               TxBinInputs [stateHighByte (snd (updateValues p s)),
                            stateLowByte (snd (updateValues p s))]}"
    if t: "pcIRQ s \<or> irq"
    by (simp add: loop_irq [OF assms t] Let_def)
  have b: "snd (loop irq p s) =
              [TxCounters (dtCounters (updtCounters s)),
               TxBinInputs [stateHighByte s, stateLowByte s]]"
    if t: "\<not> (pcIRQ s \<or> irq)"
    by (simp add: loop_timer [OF assms t])
  have c: "lineState (fst (loop irq p s)) = lineState (snd (updateValues p s))"
    if t: "pcIRQ s \<or> irq"
    using t by (simp add: loop_lineState [OF assms])
  have d: "lineState (fst (loop irq p s)) = lineState s"
    if t: "\<not> (pcIRQ s \<or> irq)"
    using t by (simp add: loop_lineState [OF assms])
  have e: "bit (stateHighByte (snd (updateValues p s))) i \<longleftrightarrow> i < 4 \<and> cntLevel p i = HIGH"
    "bit (stateLowByte (snd (updateValues p s))) i \<longleftrightarrow> i < 8 \<and> binLevel p i = HIGH"
    by (simp_all add: updateValues_stateHighByte updateValues_stateLowByte HIGH_def)
  from a b c d e show ?thesis
    by blast
qed

theorem wake_sampling_witness:
  "wellformed sIdle \<and>
   lineState (fst (loop True pH sIdle)) = lineState (snd (updateValues pH sIdle)) \<and>
   lineState (fst (loop False pH sIdle)) = lineState sIdle \<and>
   snd (loop False pH sIdle) =
     [TxCounters (dtCounters (updtCounters sIdle)),
      TxBinInputs [stateHighByte sIdle, stateLowByte sIdle]]"
proof -
  have i: "pcIRQ sIdle = False"
    by (simp add: sIdle_fields)
  show ?thesis
    using wake_sampling [OF wf_sIdle, of True pH] wake_sampling [OF wf_sIdle, of False pH]
      wf_sIdle i
    by simp
qed

subsection \<open>C5: a counter only ever moves by one increment\<close>

lemma loop_counter:
  assumes "wellformed s" and "k < 4"
  shows "counter (fst (loop irq p s)) ! k =
           (if (pcIRQ s \<or> irq) \<and> lastStateCount s ! k \<noteq> cntLevel p k \<and> cntLevel p k = HIGH
            then counter s ! k + 1 else counter s ! k)"
proof -
  define c where "c \<longleftrightarrow> pcIRQ s \<or> irq"
  have "lineState (fst (loop irq p s)) =
          (if c then lineState (snd (updateValues p s)) else lineState s)"
    unfolding c_def by (rule loop_lineState [OF assms(1)])
  then have "counter (fst (loop irq p s)) =
          (if c then counter (snd (updateValues p s)) else counter s)"
    by (simp add: lineState_def split: if_splits)
  then show ?thesis
    using assms by (auto simp add: updateValues_counter wellformed_def c_def)
qed

lemma run_counter:
  assumes "k < 4"
  shows "wellformed s \<Longrightarrow> \<exists>n\<le>length evs. counter (run evs s) ! k = counter s ! k + of_nat n"
proof (induction evs arbitrary: s)
  case Nil
  show ?case by simp
next
  case (Cons ev evs)
  obtain irq p where ev: "ev = (irq, p)"
    by (cases ev)
  let ?s = "fst (loop irq p s)"
  from Cons.prems have "wellformed ?s"
    by (rule loop_wf)
  from Cons.IH [OF this] obtain n
    where n: "n \<le> length evs" "counter (run evs ?s) ! k = counter ?s ! k + of_nat n"
    by blast
  from loop_counter [OF Cons.prems assms, of irq p]
  consider "counter ?s ! k = counter s ! k" | "counter ?s ! k = counter s ! k + 1"
    by (auto split: if_splits)
  then show ?case
  proof cases
    case 1
    with n have "counter (run (ev # evs) s) ! k = counter s ! k + of_nat n"
      by (simp add: ev)
    with n(1) show ?thesis
      by (intro exI [of _ n]) simp
  next
    case 2
    with n have "counter (run (ev # evs) s) ! k = counter s ! k + of_nat (Suc n)"
      by (simp add: ev)
    with n(1) show ?thesis
      by (intro exI [of _ "Suc n"]) simp
  qed
qed

lemma unat_incr:
  "unat ((c :: ulong) + 1) = (if c = - 1 then 0 else unat c + 1)"
  by (metis Suc_eq_plus1 add.commute eq_neg_iff_add_eq_0 unatSuc unsigned_0)

text \<open>
  C5. A call of \<open>updateValues\<close> adds 1 to the counter of line \<open>k\<close> exactly when the sampled
  level is HIGH and differs from the stored level, and leaves it unchanged otherwise; a
  pass of \<open>loop\<close> does the same on an interrupt wake and leaves the counter unchanged on
  a timer wake. After any sequence of passes the counter is its old value plus the number
  of increments, at most one per pass: it is never decremented or reset. The addition is
  that of a 32-bit unsigned value: from the largest value it wraps to 0, otherwise the
  value grows by 1.
\<close>

theorem counter_steps:
  assumes "wellformed s" and "k < 4"
  shows "counter (snd (updateValues p s)) ! k =
           (if lastStateCount s ! k \<noteq> cntLevel p k \<and> cntLevel p k = HIGH
            then counter s ! k + 1 else counter s ! k) \<and>
         counter (fst (loop irq p s)) ! k =
           (if (pcIRQ s \<or> irq) \<and> lastStateCount s ! k \<noteq> cntLevel p k \<and> cntLevel p k = HIGH
            then counter s ! k + 1 else counter s ! k) \<and>
         (\<exists>n\<le>length evs. counter (run evs s) ! k = counter s ! k + of_nat n) \<and>
         unat (counter s ! k + 1) =
           (if counter s ! k = - 1 then 0 else unat (counter s ! k) + 1)"
proof -
  have "counter (snd (updateValues p s)) ! k =
           (if lastStateCount s ! k \<noteq> cntLevel p k \<and> cntLevel p k = HIGH
            then counter s ! k + 1 else counter s ! k)"
    using assms by (simp add: updateValues_counter wellformed_def)
  moreover note loop_counter [OF assms, of irq p]
  moreover note run_counter [OF assms(2,1), of evs]
  moreover note unat_incr [of "counter s ! k"]
  ultimately show ?thesis
    by (intro conjI)
qed

theorem counter_steps_witness:
  "wellformed sMax \<and> (0::nat) < 4 \<and> counter sMax ! 0 = 0xFFFFFFFF \<and>
   counter (snd (updateValues pC0 sMax)) ! 0 = 0 \<and>
   counter (fst (loop True pC0 sMax)) ! 0 = 0 \<and>
   counter (fst (loop False pC0 sMax)) ! 0 = 0xFFFFFFFF \<and>
   unat (counter sMax ! 0 + 1) = 0"
proof -
  have w: "wellformed sMax"
    using wf_sIdle by (simp add: sMax_def wellformed_def)
  have f: "counter sMax ! 0 = 0xFFFFFFFF" "lastStateCount sMax ! 0 = 0" "pcIRQ sMax = False"
    by (simp_all add: sMax_def sIdle_fields)
  have l: "cntLevel pC0 0 = HIGH"
    by code_simp
  show ?thesis
    using counter_steps [OF w, of 0 pC0 True "[]"] counter_steps [OF w, of 0 pC0 False "[]"] w
    by (simp add: f l HIGH_def)
qed

subsection \<open>C6: sampling the same level twice\<close>

lemma updateValues_same:
  assumes "wellformed s"
    and b: "\<forall>i<8. lastStateBinary s ! i = binLevel p i"
    and c: "\<forall>k<4. lastStateCount s ! k = cntLevel p k"
  shows "fst (updateValues p s) = 0"
    and "lastStateBinary (snd (updateValues p s)) = lastStateBinary s"
    and "lastStateCount (snd (updateValues p s)) = lastStateCount s"
    and "counter (snd (updateValues p s)) = counter s"
proof -
  show "fst (updateValues p s) = 0"
    using b c by (simp add: updateValues_res)
  show "lastStateBinary (snd (updateValues p s)) = lastStateBinary s"
    using assms(1) b
    by (intro nth_equalityI)
      (simp_all add: updateValues_length updateValues_lastStateBinary wellformed_def)
  show "lastStateCount (snd (updateValues p s)) = lastStateCount s"
    using assms(1) c
    by (intro nth_equalityI)
      (simp_all add: updateValues_length updateValues_lastStateCount wellformed_def)
  show "counter (snd (updateValues p s)) = counter s"
    using assms(1) c
    by (intro nth_equalityI)
      (simp_all add: updateValues_length updateValues_counter wellformed_def)
qed

lemma updateValues_idem:
  assumes "wellformed s"
    and b: "\<forall>i<8. binLevel p2 i = binLevel p1 i"
    and c: "\<forall>k<4. cntLevel p2 k = cntLevel p1 k"
  shows "updateValues p2 (snd (updateValues p1 s)) = (0, snd (updateValues p1 s))"
proof -
  let ?s1 = "snd (updateValues p1 s)"
  have w: "wellformed ?s1"
    using assms(1) by (rule updateValues_wf)
  have b1: "\<forall>i<8. lastStateBinary ?s1 ! i = binLevel p2 i"
    using assms(1) b by (simp add: updateValues_lastStateBinary wellformed_def)
  have c1: "\<forall>k<4. lastStateCount ?s1 ! k = cntLevel p2 k"
    using assms(1) c by (simp add: updateValues_lastStateCount wellformed_def)
  note same = updateValues_same [OF w b1 c1]
  have lo: "stateLowByte (snd (updateValues p2 ?s1)) = stateLowByte ?s1"
    using b by (intro bit_eqI) (auto simp: updateValues_stateLowByte)
  have hi: "stateHighByte (snd (updateValues p2 ?s1)) = stateHighByte ?s1"
    using c by (intro bit_eqI) (auto simp: updateValues_stateHighByte)
  have "snd (updateValues p2 ?s1) = ?s1"
    by (rule devstate.equality) (simp_all add: same lo hi updateValues_frame)
  with same(1) show ?thesis
    by (simp add: prod_eq_iff)
qed

text \<open>
  C6. Let two successive calls of \<open>updateValues\<close> sample the same level \<open>L\<close> on a line.
  After the first call and after the second the stored level of the line is \<open>L\<close>, and the
  second call does not increment the line's counter. If all lines show the same levels in
  both calls, the second call returns 0 and leaves the globals as they were. A call
  returns a nonzero value if the stored level of some line differs from the sampled one;
  if no stored level differs, it returns 0 and leaves stored levels and counters
  unmodified.
\<close>

theorem edge_detection_idempotent:
  assumes "wellformed s"
  shows "(i < 8 \<and> binLevel p2 i = binLevel p1 i \<longrightarrow>
            lastStateBinary (snd (updateValues p1 s)) ! i = binLevel p1 i \<and>
            lastStateBinary (snd (updateValues p2 (snd (updateValues p1 s)))) ! i =
              binLevel p1 i) \<and>
         (k < 4 \<and> cntLevel p2 k = cntLevel p1 k \<longrightarrow>
            lastStateCount (snd (updateValues p1 s)) ! k = cntLevel p1 k \<and>
            lastStateCount (snd (updateValues p2 (snd (updateValues p1 s)))) ! k =
              cntLevel p1 k \<and>
            counter (snd (updateValues p2 (snd (updateValues p1 s)))) ! k =
              counter (snd (updateValues p1 s)) ! k) \<and>
         ((\<forall>i<8. binLevel p2 i = binLevel p1 i) \<and> (\<forall>k<4. cntLevel p2 k = cntLevel p1 k) \<longrightarrow>
            updateValues p2 (snd (updateValues p1 s)) = (0, snd (updateValues p1 s))) \<and>
         ((i < 8 \<and> lastStateBinary s ! i \<noteq> binLevel p1 i) \<or>
          (k < 4 \<and> lastStateCount s ! k \<noteq> cntLevel p1 k) \<longrightarrow>
            fst (updateValues p1 s) \<noteq> 0) \<and>
         ((\<forall>i<8. lastStateBinary s ! i = binLevel p1 i) \<and>
          (\<forall>k<4. lastStateCount s ! k = cntLevel p1 k) \<longrightarrow>
            fst (updateValues p1 s) = 0 \<and>
            lastStateBinary (snd (updateValues p1 s)) = lastStateBinary s \<and>
            lastStateCount (snd (updateValues p1 s)) = lastStateCount s \<and>
            counter (snd (updateValues p1 s)) = counter s)"
proof -
  let ?s1 = "snd (updateValues p1 s)"
  have w: "wellformed ?s1"
    using assms by (rule updateValues_wf)
  have l: "length (lastStateBinary s) = 8" "length (lastStateCount s) = 4"
    "length (counter s) = 4"
    using assms by (simp_all add: wellformed_def)
  have l1: "length (lastStateBinary ?s1) = 8" "length (lastStateCount ?s1) = 4"
    "length (counter ?s1) = 4"
    using w by (simp_all add: wellformed_def)
  have a: "lastStateBinary ?s1 ! i = binLevel p1 i \<and>
           lastStateBinary (snd (updateValues p2 ?s1)) ! i = binLevel p1 i"
    if "i < 8" "binLevel p2 i = binLevel p1 i"
    using that by (simp add: updateValues_lastStateBinary l l1)
  have b: "lastStateCount ?s1 ! k = cntLevel p1 k \<and>
           lastStateCount (snd (updateValues p2 ?s1)) ! k = cntLevel p1 k \<and>
           counter (snd (updateValues p2 ?s1)) ! k = counter ?s1 ! k"
    if "k < 4" "cntLevel p2 k = cntLevel p1 k"
  proof -
    have "lastStateCount ?s1 ! k = cntLevel p1 k"
      using that by (simp add: updateValues_lastStateCount l)
    moreover have "lastStateCount (snd (updateValues p2 ?s1)) ! k = cntLevel p1 k"
      using that by (simp add: updateValues_lastStateCount l1)
    moreover have "counter (snd (updateValues p2 ?s1)) ! k = counter ?s1 ! k"
      using that calculation(1) by (simp add: updateValues_counter [of p2])
    ultimately show ?thesis
      by simp
  qed
  have c: "fst (updateValues p1 s) \<noteq> 0"
    if "(i < 8 \<and> lastStateBinary s ! i \<noteq> binLevel p1 i) \<or>
        (k < 4 \<and> lastStateCount s ! k \<noteq> cntLevel p1 k)"
    using that by (auto simp: updateValues_res)
  from a b c updateValues_idem [OF assms, of p2 p1] updateValues_same [OF assms, of p1]
  show ?thesis
    by blast
qed

theorem edge_detection_idempotent_witness:
  "wellformed init_state \<and>
   fst (updateValues pB0C0 init_state) \<noteq> 0 \<and>
   updateValues pB0C0 (snd (updateValues pB0C0 init_state)) =
     (0, snd (updateValues pB0C0 init_state)) \<and>
   lastStateBinary (snd (updateValues pB0C0 (snd (updateValues pB0C0 init_state)))) ! 0 = 1 \<and>
   lastStateCount (snd (updateValues pB0C0 (snd (updateValues pB0C0 init_state)))) ! 0 = 1 \<and>
   counter (snd (updateValues pB0C0 (snd (updateValues pB0C0 init_state)))) ! 0 =
     counter (snd (updateValues pB0C0 init_state)) ! 0"
proof -
  have l: "binLevel pB0C0 0 = 1" "cntLevel pB0C0 0 = 1"
    by code_simp+
  have i: "lastStateBinary init_state ! 0 \<noteq> 1"
    by (simp add: init_state_def)
  show ?thesis
    using edge_detection_idempotent [OF wf_init_state, of 0 pB0C0 pB0C0 0] wf_init_state i
    by (simp add: l)
qed

subsection \<open>C8: the order of edge detection and counting\<close>

lemma updateValuesUpTo_unfold:
  "updateValuesUpTo p n s =
     counterLoop p n
       (fst (binaryLoop p 8 (0, s\<lparr>stateLowByte := 0\<rparr>)),
        (snd (binaryLoop p 8 (0, s\<lparr>stateLowByte := 0\<rparr>)))\<lparr>stateHighByte := 0\<rparr>)"
  unfolding updateValuesUpTo_def length_pins by (simp add: case_prod_beta)

lemma updateValuesUpTo_Suc:
  "updateValuesUpTo p (Suc n) s = counterBody p n (updateValuesUpTo p n s)"
  by (simp add: updateValuesUpTo_unfold counterLoop_Suc)

lemma updateValues_UpTo: "updateValues p s = updateValuesUpTo p 4 s"
  by (simp add: updateValues_unfold updateValuesUpTo_unfold)

text \<open>
  C8, as stated, fails. From the initial globals with all lines high, after the first
  iteration of the second loop counter 0 has been incremented, while the edge on counter
  line 1 (level 1 against the stored \<open>-1\<close>) has not been detected yet: its stored level
  is still \<open>-1\<close> and becomes 1 only later in the same call.
\<close>

theorem accumulation_before_later_detection:
  "counter init_state ! 0 = 0 \<and>
   counter (snd (updateValuesUpTo pH 1 init_state)) ! 0 = 1 \<and>
   cntLevel pH 1 = 1 \<and>
   lastStateCount (snd (updateValuesUpTo pH 1 init_state)) ! 1 = - 1 \<and>
   lastStateCount (snd (updateValues pH init_state)) ! 1 = 1"
proof -
  have "counter init_state ! 0 = 0"
    by (simp add: init_state_def)
  moreover have "counter (snd (updateValuesUpTo pH 1 init_state)) ! 0 = 1"
    by code_simp
  moreover have "cntLevel pH 1 = 1"
    by code_simp
  moreover have "lastStateCount (snd (updateValuesUpTo pH 1 init_state)) ! 1 = - 1"
    by code_simp
  moreover have "lastStateCount (snd (updateValues pH init_state)) ! 1 = 1"
    by code_simp
  ultimately show ?thesis
    by (intro conjI)
qed

text \<open>
  C8, amended. \<open>updateValues\<close> is its first loop followed by the four iterations of its
  second loop. The first loop touches no counter, and at every point of the second loop
  all binary-only lines have their sampled level stored: their edge detection is complete
  before any counting. The counter lines are handled one after another: after \<open>n\<close>
  iterations a counter differs from its old value only for a line below \<open>n\<close> whose
  sampled level is HIGH, differed from the stored level and is now the stored level, and
  the lines from \<open>n\<close> on are still untouched.
\<close>

theorem detection_then_accumulation:
  assumes "wellformed s" and "n \<le> 4"
  shows "updateValues p s = updateValuesUpTo p 4 s \<and>
         updateValuesUpTo p (Suc n) s = counterBody p n (updateValuesUpTo p n s) \<and>
         (\<forall>j<8. lastStateBinary (snd (updateValuesUpTo p n s)) ! j = binLevel p j) \<and>
         counter (snd (updateValuesUpTo p 0 s)) = counter s \<and>
         (\<forall>k<4. counter (snd (updateValuesUpTo p n s)) ! k \<noteq> counter s ! k \<longrightarrow>
                  k < n \<and> lastStateCount s ! k \<noteq> cntLevel p k \<and> cntLevel p k = HIGH \<and>
                  lastStateCount (snd (updateValuesUpTo p n s)) ! k = HIGH) \<and>
         (\<forall>k<4. n \<le> k \<longrightarrow>
                  lastStateCount (snd (updateValuesUpTo p n s)) ! k = lastStateCount s ! k \<and>
                  counter (snd (updateValuesUpTo p n s)) ! k = counter s ! k)"
proof -
  have l: "length (lastStateBinary s) = 8" "length (lastStateCount s) = 4"
    "length (counter s) = 4"
    using assms(1) by (simp_all add: wellformed_def)
  have a: "\<forall>j<8. lastStateBinary (snd (updateValuesUpTo p n s)) ! j = binLevel p j"
    by (simp add: updateValuesUpTo_unfold counterLoop_frame binaryLoop_last l)
  have b: "counter (snd (updateValuesUpTo p 0 s)) = counter s"
    by (simp add: updateValuesUpTo_unfold counterLoop_0 binaryLoop_frame)
  have c: "counter (snd (updateValuesUpTo p n s)) ! k =
             (if k < n \<and> lastStateCount s ! k \<noteq> cntLevel p k \<and> cntLevel p k = HIGH
              then counter s ! k + 1 else counter s ! k)" if "k < 4" for k
    using that by (auto simp add: updateValuesUpTo_unfold counterLoop_counter binaryLoop_frame l)
  have d: "lastStateCount (snd (updateValuesUpTo p n s)) ! k =
             (if k < n then cntLevel p k else lastStateCount s ! k)" if "k < 4" for k
    using that by (simp add: updateValuesUpTo_unfold counterLoop_last binaryLoop_frame l)
  have e: "\<forall>k<4. counter (snd (updateValuesUpTo p n s)) ! k \<noteq> counter s ! k \<longrightarrow>
                  k < n \<and> lastStateCount s ! k \<noteq> cntLevel p k \<and> cntLevel p k = HIGH \<and>
                  lastStateCount (snd (updateValuesUpTo p n s)) ! k = HIGH"
    by (auto simp: c d split: if_splits)
  have f: "\<forall>k<4. n \<le> k \<longrightarrow>
                  lastStateCount (snd (updateValuesUpTo p n s)) ! k = lastStateCount s ! k \<and>
                  counter (snd (updateValuesUpTo p n s)) ! k = counter s ! k"
    by (auto simp: c d)
  from updateValues_UpTo [of p s] updateValuesUpTo_Suc [of p n s] a b e f
  show ?thesis
    by (intro conjI)
qed

theorem detection_then_accumulation_witness:
  "wellformed init_state \<and> (1::nat) \<le> 4 \<and>
   updateValues pH init_state = updateValuesUpTo pH 4 init_state \<and>
   updateValuesUpTo pH (Suc 1) init_state =
     counterBody pH 1 (updateValuesUpTo pH 1 init_state) \<and>
   lastStateBinary (snd (updateValuesUpTo pH 1 init_state)) ! 7 = binLevel pH 7 \<and>
   lastStateCount (snd (updateValuesUpTo pH 1 init_state)) ! 0 = HIGH \<and>
   lastStateCount (snd (updateValuesUpTo pH 1 init_state)) ! 1 = lastStateCount init_state ! 1"
proof -
  have c: "counter (snd (updateValuesUpTo pH 1 init_state)) ! 0 \<noteq> counter init_state ! 0"
    by code_simp
  show ?thesis
    using detection_then_accumulation [OF wf_init_state, of 1 pH] wf_init_state c
    by simp
qed

end
